theory Spec2Isabelle
  imports Complex_Main "HOL-Library.AList" "HOL-Library.Sublist"
begin

section \<open>The identity resolution engine of \<open>server/main.py\<close>\<close>

text \<open>
  The module keeps three read-only artefacts in memory: the ANN index (\<open>index\<close>), the
  slot-ordered list \<open>ANNOY_INDEX\<close> and the dictionary \<open>PERFORMER_DB\<close>. They are gathered
  in one record that every operation receives. Distances are Python floats, that is
  IEEE 754 doubles: a finite double is modelled by the rational number it denotes, and
  every operation of the source on floats is the exact operation followed by the
  rounding \<open>fl\<close> to the nearest double. Slots are the item numbers of the index,
  which are never negative, hence \<open>nat\<close>.
\<close>

subsection \<open>Data\<close>

type_synonym vector = "rat list"

text \<open>An entry of \<open>PERFORMER_DB\<close>: the two keys that lines 135-136 read.\<close>

record person =
  person_name :: string
  person_image :: string

text \<open>
  The dictionary built at lines 127-131 and extended at lines 135-136. The keys
  \<open>name\<close> and \<open>image\<close> exist only when the identity is in \<open>PERFORMER_DB\<close>, so they are
  optional here (\<open>None\<close>: the key is absent from the dictionary). The key \<open>id\<close> is
  the field \<open>cand_id\<close>, the key \<open>image\<close> the field \<open>image_url\<close>.
\<close>

record candidate =
  cand_id :: string
  distance :: rat
  hits :: int
  name :: "string option"
  image_url :: "string option"

text \<open>The pydantic model \<open>Performer\<close> (lines 36-44), with its declared defaults.\<close>

record Performer =
  Performer_id :: string
  Performer_name :: string
  Performer_image :: string
  Performer_distance :: rat

text \<open>The dictionary returned at lines 138-141.\<close>

record result =
  result_id :: string
  performers :: "candidate list"

record PerformerSearch =
  PerformerSearch_id :: string
  PerformerSearch_performers :: "Performer list"

text \<open>
  \<open>get_nns_by_vector ctx v n search_k\<close> stands for
  \<open>index.get_nns_by_vector(v, n, search_k=search_k, include_distances=True)\<close>: the pair of
  the list of slots and the list of distances.
\<close>

record env =
  get_nns_by_vector :: "vector \<Rightarrow> nat \<Rightarrow> nat \<Rightarrow> nat list \<times> rat list"
  ANNOY_INDEX :: "string list"
  PERFORMER_DB :: "string \<rightharpoonup> person"

text \<open>
  The observable effect of a request on its environment: the queries sent to the ANN
  index, in order.
\<close>

record world =
  index_queries :: "vector list"

text \<open>
  \<open>HTTPException\<close> is raised by the handlers themselves; \<open>IndexError\<close> is the uncaught
  exception of an out-of-range subscript, which the framework reports as an internal
  server error.
\<close>

datatype error = HTTPException nat string | IndexError

subsection \<open>Library functions of Python\<close>

text \<open>\<open>s.split(sep)\<close> for a separator of one character.\<close>

fun split_chr :: "char \<Rightarrow> string \<Rightarrow> string list" where
  "split_chr sep [] = [[]]"
| "split_chr sep (c # cs) =
     (if c = sep then [] # split_chr sep cs
      else (case split_chr sep cs of
              [] \<Rightarrow> [[c]]
            | w # ws \<Rightarrow> (c # w) # ws))"

text \<open>The nearest integer, a tie going to the even one.\<close>

definition round_half_even :: "rat \<Rightarrow> int" where
  "round_half_even x =
     (let f = \<lfloor>x\<rfloor>; r = x - of_int f
      in if r < 1 / 2 then f
         else if 1 / 2 < r then f + 1
         else if even f then f else f + 1)"

text \<open>
  The binary exponent of a positive number: \<open>e\<close> with \<open>2 ^ e \<le> x < 2 ^ (e + 1)\<close>,
  found by halving or doubling. The two bounds are those of the format: below
  \<open>2 ^ - 1022\<close> the exponent stays at \<open>- 1022\<close> (the subnormal numbers), and no finite
  double reaches \<open>2 ^ 1024\<close>.
\<close>

primrec halvings :: "nat \<Rightarrow> rat \<Rightarrow> nat" where
  "halvings 0 x = 0"
| "halvings (Suc n) x = (if 2 \<le> x then Suc (halvings n (x / 2)) else 0)"

primrec doublings :: "nat \<Rightarrow> rat \<Rightarrow> nat" where
  "doublings 0 x = 0"
| "doublings (Suc n) x = (if x < 1 then Suc (doublings n (x * 2)) else 0)"

definition exponent :: "rat \<Rightarrow> int" where
  "exponent x = (if 1 \<le> x then int (halvings 1024 x) else - int (doublings 1022 x))"

definition pow2 :: "int \<Rightarrow> rat" where
  "pow2 e = (if 0 \<le> e then 2 ^ nat e else 1 / 2 ^ nat (- e))"

text \<open>
  \<open>fl x\<close>: the double nearest to \<open>x\<close>, a tie going to the even significand (the
  rounding of every arithmetic operation on Python floats). Doubles in the binade of
  \<open>x\<close> are the multiples of \<open>2 ^ (exponent \<bar>x\<bar> - 52)\<close>. Overflow to infinity is
  left out: the distances of this program and their differences stay far below
  \<open>2 ^ 1024\<close>.
\<close>

definition fl :: "rat \<Rightarrow> rat" where
  "fl x =
     (if x = 0 then 0
      else let u = pow2 (exponent \<bar>x\<bar> - 52)
           in of_int (round_half_even (x / u)) * u)"

text \<open>
  \<open>round(x, 2)\<close>: Python rounds the exact value of \<open>x\<close> to the nearest multiple of one
  hundredth, a tie going to the even one, and returns the double nearest to it.
\<close>

definition py_round2 :: "rat \<Rightarrow> rat" where
  "py_round2 x = fl (of_int (round_half_even (x * 100)) / 100)"

subsection \<open>The resolver\<close>

text \<open>Line 121: \<open>ANNOY_INDEX[p].split("=")[0]\<close>.\<close>

definition identity_of :: "env \<Rightarrow> nat \<Rightarrow> error + string" where
  "identity_of ctx p =
     (if p < length (ANNOY_INDEX ctx)
      then (case split_chr CHR ''='' (ANNOY_INDEX ctx ! p) of
              [] \<Rightarrow> Inl IndexError
            | k # _ \<Rightarrow> Inr k)
      else Inl IndexError)"

text \<open>Lines 127-136: the dictionary of an identity seen for the first time.\<close>

definition new_candidate :: "env \<Rightarrow> string \<Rightarrow> rat \<Rightarrow> candidate" where
  "new_candidate ctx k d =
     (let c = \<lparr>cand_id = k, distance = py_round2 d, hits = 1, name = None, image_url = None\<rparr>
      in case PERFORMER_DB ctx k of
           None \<Rightarrow> c
         | Some person \<Rightarrow>
             c\<lparr>name := Some (person_name person), image_url := Some (person_image person)\<rparr>)"

text \<open>
  Lines 119-136: the loop over \<open>zip(ids, distances)\<close>. \<open>persons\<close> is a Python dictionary:
  it keeps its keys in insertion order, and an assignment to a key it has keeps the
  key's place. \<open>AList.update\<close> is that assignment on an association list.
  Line 124 subtracts the double \<open>0.5\<close> from a double: the stored result is the
  nearest double to the difference.
\<close>

fun persons_loop :: "env \<Rightarrow> (nat \<times> rat) list \<Rightarrow> (string \<times> candidate) list
    \<Rightarrow> error + (string \<times> candidate) list" where
  "persons_loop ctx [] persons = Inr persons"
| "persons_loop ctx ((p, d) # rest) persons =
     (case identity_of ctx p of
        Inl e \<Rightarrow> Inl e
      | Inr k \<Rightarrow>
          (case map_of persons k of
             Some c \<Rightarrow>
               persons_loop ctx rest
                 (AList.update k
                    (c\<lparr>hits := hits c + 1, distance := fl (distance c - 1 / 2)\<rparr>) persons)
           | None \<Rightarrow>
               persons_loop ctx rest (AList.update k (new_candidate ctx k d) persons)))"

text \<open>
  Lines 111-141. \<open>uid\<close> is the value of \<open>str(uuid.uuid4())\<close> for this call, supplied by
  the environment.
\<close>

definition lookup_performer ::
    "env \<Rightarrow> string \<Rightarrow> vector \<Rightarrow> world \<Rightarrow> (error + result) \<times> world" where
  "lookup_performer ctx uid v w =
     (let (ids, distances) = get_nns_by_vector ctx v 50 10000;
          w' = w\<lparr>index_queries := index_queries w @ [v]\<rparr>
      in case persons_loop ctx (zip ids distances) [] of
           Inl e \<Rightarrow> (Inl e, w')
         | Inr persons \<Rightarrow>
             (Inr \<lparr>result_id = uid,
                   performers = take 10 (sort_key distance (map snd persons))\<rparr>, w'))"

text \<open>Lines 103-108: the handler of \<open>/search\<close>, which declares no response model.\<close>

definition confirm ::
    "env \<Rightarrow> string \<Rightarrow> vector \<Rightarrow> world \<Rightarrow> (error + result) \<times> world" where
  "confirm ctx uid v w =
     (if length v \<noteq> 512 then (Inl (HTTPException 400 ''Invalid vector size''), w)
      else lookup_performer ctx uid v w)"

text \<open>
  The handler of \<open>/\<close> is declared with \<open>response_model=PerformerSearch\<close> (line 60): what it
  returns is \<open>lookup_performer(face)\<close> (line 100) read through the models of lines
  36-51, which keep the declared fields only and give an absent field its default.
\<close>

definition to_Performer :: "candidate \<Rightarrow> Performer" where
  "to_Performer c =
     \<lparr>Performer_id = cand_id c,
      Performer_name = (case name c of None \<Rightarrow> ''N/A'' | Some n \<Rightarrow> n),
      Performer_image = (case image_url c of None \<Rightarrow> ''N/A'' | Some i \<Rightarrow> i),
      Performer_distance = distance c\<rparr>"

definition to_PerformerSearch :: "result \<Rightarrow> PerformerSearch" where
  "to_PerformerSearch r =
     \<lparr>PerformerSearch_id = result_id r,
      PerformerSearch_performers = map to_Performer (performers r)\<rparr>"

definition recognise_response ::
    "env \<Rightarrow> string \<Rightarrow> vector \<Rightarrow> world \<Rightarrow> (error + PerformerSearch) \<times> world" where
  "recognise_response ctx uid face w =
     (case lookup_performer ctx uid face w of
        (Inl e, w') \<Rightarrow> (Inl e, w')
      | (Inr r, w') \<Rightarrow> (Inr (to_PerformerSearch r), w'))"

subsection \<open>Notions of the specification\<close>

text \<open>
  The substring of a slot entry before the first occurrence of the separator, in the
  specification's words (section 4.2).
\<close>

definition before_first_sep :: "char \<Rightarrow> string \<Rightarrow> string" where
  "before_first_sep sep s = takeWhile (\<lambda>c. c \<noteq> sep) s"

text \<open>The ANN hits whose slot maps to the identity key \<open>k\<close>, in the order of the hits.\<close>

definition hits_of :: "env \<Rightarrow> string \<Rightarrow> (nat \<times> rat) list \<Rightarrow> (nat \<times> rat) list" where
  "hits_of ctx k hs = filter (\<lambda>h. identity_of ctx (fst h) = Inr k) hs"

text \<open>The identity keys of a list of hits whose slots are all in range.\<close>

definition keys_of :: "env \<Rightarrow> (nat \<times> rat) list \<Rightarrow> string list" where
  "keys_of ctx hs = map (\<lambda>h. before_first_sep CHR ''='' (ANNOY_INDEX ctx ! fst h)) hs"

text \<open>The distinct elements of a list, each at the place of its first occurrence.\<close>

fun first_occurrences :: "'a list \<Rightarrow> 'a list" where
  "first_occurrences [] = []"
| "first_occurrences (x # xs) = x # removeAll x (first_occurrences xs)"

subsection \<open>A small gallery\<close>

text \<open>
  Three slots, two of them reference photos of the identity \<open>X\<close>; only \<open>Y\<close> has an
  entry in the metadata. \<open>gallery ids ds\<close> is that gallery behind an index that answers
  every query with the slots \<open>ids\<close> at the distances \<open>ds\<close>.
\<close>

definition gallery :: "nat list \<Rightarrow> rat list \<Rightarrow> env" where
  "gallery ids ds =
     \<lparr>get_nns_by_vector = (\<lambda>v n search_k. (ids, ds)),
      ANNOY_INDEX = [''X=a.jpg'', ''Y=b.jpg'', ''X=c.jpg''],
      PERFORMER_DB = [''Y'' \<mapsto> \<lparr>person_name = ''Why'', person_image = ''y.png''\<rparr>]\<rparr>"

text \<open>
  A larger gallery: twelve identities \<open>A\<close> to \<open>L\<close>, the identity \<open>K\<close> with two
  reference photos (slots 10 and 12), and an index that answers with all thirteen
  slots in ascending distance.
\<close>

definition gallery13 :: env where
  "gallery13 =
     \<lparr>get_nns_by_vector =
        (\<lambda>v n search_k.
           ([0, 1, 2, 3, 4, 5, 6, 7, 8, 9, 10, 11, 12],
            [1, 2, 3, 4, 5, 6, 7, 8, 9, 10, fl (51 / 5), 11, 12])),
      ANNOY_INDEX =
        [''A'', ''B'', ''C'', ''D'', ''E'', ''F'', ''G'', ''H'', ''I'', ''J'', ''K=1'', ''L'',
         ''K=2''],
      PERFORMER_DB = Map.empty\<rparr>"

definition query512 :: vector where
  "query512 = replicate 512 0"

definition world0 :: world where
  "world0 = \<lparr>index_queries = []\<rparr>"

section \<open>Properties\<close>

subsection \<open>Slot entries and the aggregation loop\<close>

lemma split_chr_head: "\<exists>ws. split_chr sep s = before_first_sep sep s # ws"
  by (induction s) (auto simp: before_first_sep_def)

lemma identity_of_in_range:
  "p < length (ANNOY_INDEX ctx) \<Longrightarrow>
     identity_of ctx p = Inr (before_first_sep CHR ''='' (ANNOY_INDEX ctx ! p))"
  using split_chr_head [of "CHR ''=''" "ANNOY_INDEX ctx ! p"]
  by (auto simp: identity_of_def)

lemma identity_of_out_of_range:
  "length (ANNOY_INDEX ctx) \<le> p \<Longrightarrow> identity_of ctx p = Inl IndexError"
  by (simp add: identity_of_def)

lemma identity_of_Inr_iff:
  "identity_of ctx p = Inr k \<longleftrightarrow>
     p < length (ANNOY_INDEX ctx) \<and> k = before_first_sep CHR ''='' (ANNOY_INDEX ctx ! p)"
  using identity_of_in_range [of p ctx] identity_of_out_of_range [of ctx p]
  by (cases "p < length (ANNOY_INDEX ctx)") auto

lemma new_candidate_fields [simp]:
  "cand_id (new_candidate ctx k d) = k"
  "distance (new_candidate ctx k d) = py_round2 d"
  "hits (new_candidate ctx k d) = 1"
  by (simp_all add: new_candidate_def Let_def split: option.splits)

lemma persons_loop_error: "persons_loop ctx hs acc = Inl e \<Longrightarrow> e = IndexError"
proof (induction hs arbitrary: acc)
  case Nil
  then show ?case by simp
next
  case (Cons h hs)
  obtain p d where h: "h = (p, d)" by (cases h)
  show ?case
  proof (cases "identity_of ctx p")
    case (Inl e')
    then have "e' = IndexError" by (auto simp: identity_of_def split: if_splits list.splits)
    with Cons.prems h Inl show ?thesis by simp
  next
    case (Inr k)
    with Cons.prems h Cons.IH show ?thesis
      by (auto split: option.splits)
  qed
qed

lemma persons_loop_in_range:
  "\<forall>h \<in> set hs. fst h < length (ANNOY_INDEX ctx) \<Longrightarrow> \<exists>ps. persons_loop ctx hs acc = Inr ps"
proof (induction hs arbitrary: acc)
  case Nil
  then show ?case by simp
next
  case (Cons h hs)
  obtain p d where h: "h = (p, d)" by (cases h)
  with Cons.prems have "p < length (ANNOY_INDEX ctx)" by simp
  then obtain k where k: "identity_of ctx p = Inr k"
    using identity_of_in_range by blast
  from Cons.prems have rest: "\<forall>h \<in> set hs. fst h < length (ANNOY_INDEX ctx)" by simp
  show ?case
    using Cons.IH [OF rest] h k by (simp split: option.splits)
qed

lemma persons_loop_out_of_range:
  "h \<in> set hs \<Longrightarrow> length (ANNOY_INDEX ctx) \<le> fst h \<Longrightarrow> persons_loop ctx hs acc = Inl IndexError"
proof (induction hs arbitrary: acc)
  case Nil
  then show ?case by simp
next
  case (Cons h' hs)
  obtain p d where h': "h' = (p, d)" by (cases h')
  show ?case
  proof (cases "identity_of ctx p")
    case (Inl e)
    then have "e = IndexError" by (auto simp: identity_of_def split: if_splits list.splits)
    with h' Inl show ?thesis by simp
  next
    case (Inr k)
    then have "p < length (ANNOY_INDEX ctx)" by (simp add: identity_of_Inr_iff)
    with Cons.prems h' have "h \<in> set hs" by auto
    from Cons.IH [OF this Cons.prems(2)] h' Inr show ?thesis
      by (simp split: option.splits)
  qed
qed

lemma persons_loop_seen:
  "map_of acc k = Some c0 \<Longrightarrow> persons_loop ctx hs acc = Inr ps \<Longrightarrow>
     map_of ps k =
       Some (c0\<lparr>hits := hits c0 + int (length (hits_of ctx k hs)),
                distance := ((\<lambda>x. fl (x - 1 / 2)) ^^ length (hits_of ctx k hs)) (distance c0)\<rparr>)"
proof (induction hs arbitrary: acc c0)
  case Nil
  then show ?case by (simp add: hits_of_def)
next
  case (Cons h hs)
  obtain p d where h: "h = (p, d)" by (cases h)
  from Cons.prems(2) h obtain k' where k': "identity_of ctx p = Inr k'"
    by (cases "identity_of ctx p") auto
  show ?case
  proof (cases "k' = k")
    case True
    let ?c1 = "c0\<lparr>hits := hits c0 + 1, distance := fl (distance c0 - 1 / 2)\<rparr>"
    from Cons.prems h k' True
    have run: "persons_loop ctx hs (AList.update k ?c1 acc) = Inr ps" by simp
    have "map_of (AList.update k ?c1 acc) k = Some ?c1" by (simp add: update_conv')
    moreover have "((\<lambda>x. fl (x - 1 / 2)) ^^ n) (fl (distance c0 - 1 / 2)) =
        fl (((\<lambda>x. fl (x - 1 / 2)) ^^ n) (distance c0) - 1 / 2)" for n
      using funpow_swap1 [of "\<lambda>x. fl (x - 1 / 2)" n "distance c0"] by simp
    ultimately show ?thesis
      using Cons.IH [OF _ run] h k' True by (simp add: hits_of_def algebra_simps)
  next
    case False
    from Cons.prems h k' obtain c' where
      run: "persons_loop ctx hs (AList.update k' c' acc) = Inr ps"
      by (auto split: option.splits)
    have "map_of (AList.update k' c' acc) k = Some c0"
      using False Cons.prems(1) by (simp add: update_conv')
    from Cons.IH [OF this run] h k' False show ?thesis
      by (simp add: hits_of_def)
  qed
qed

lemma persons_loop_unseen:
  "map_of acc k = None \<Longrightarrow> persons_loop ctx hs acc = Inr ps \<Longrightarrow>
     map_of ps k =
       (case hits_of ctx k hs of
          [] \<Rightarrow> None
        | h # later \<Rightarrow>
            Some ((new_candidate ctx k (snd h))
                    \<lparr>hits := 1 + int (length later),
                     distance := ((\<lambda>x. fl (x - 1 / 2)) ^^ length later) (py_round2 (snd h))\<rparr>))"
proof (induction hs arbitrary: acc)
  case Nil
  then show ?case by (simp add: hits_of_def)
next
  case (Cons h hs)
  obtain p d where h: "h = (p, d)" by (cases h)
  from Cons.prems(2) h obtain k' where k': "identity_of ctx p = Inr k'"
    by (cases "identity_of ctx p") auto
  show ?case
  proof (cases "k' = k")
    case True
    let ?c1 = "new_candidate ctx k d"
    from Cons.prems h k' True
    have run: "persons_loop ctx hs (AList.update k ?c1 acc) = Inr ps" by simp
    have "map_of (AList.update k ?c1 acc) k = Some ?c1" by (simp add: update_conv')
    from persons_loop_seen [OF this run] h k' True show ?thesis
      by (simp add: hits_of_def)
  next
    case False
    from Cons.prems h k' obtain c' where
      run: "persons_loop ctx hs (AList.update k' c' acc) = Inr ps"
      by (auto split: option.splits)
    have "map_of (AList.update k' c' acc) k = None"
      using False Cons.prems(1) by (simp add: update_conv')
    from Cons.IH [OF this run] h k' False show ?thesis
      by (simp add: hits_of_def)
  qed
qed

lemma persons_loop_distinct:
  "distinct (map fst acc) \<Longrightarrow> persons_loop ctx hs acc = Inr ps \<Longrightarrow> distinct (map fst ps)"
proof (induction hs arbitrary: acc)
  case Nil
  then show ?case by simp
next
  case (Cons h hs)
  obtain p d where h: "h = (p, d)" by (cases h)
  from Cons.prems(2) h obtain k c' where
    run: "persons_loop ctx hs (AList.update k c' acc) = Inr ps"
    by (cases "identity_of ctx p") (auto split: option.splits)
  from Cons.IH [OF distinct_update [OF Cons.prems(1)] run] show ?case .
qed

lemma filter_removeAll_seen:
  "k \<in> A \<Longrightarrow> filter (\<lambda>x. x \<notin> A) (removeAll k xs) = filter (\<lambda>x. x \<notin> A) xs"
  by (induction xs) auto

lemma filter_removeAll_new:
  "filter (\<lambda>x. x \<notin> insert k A) xs = filter (\<lambda>x. x \<notin> A) (removeAll k xs)"
  by (induction xs) auto

lemma persons_loop_keys:
  "persons_loop ctx hs acc = Inr ps \<Longrightarrow>
     map fst ps = map fst acc @ filter (\<lambda>k. k \<notin> set (map fst acc)) (first_occurrences (keys_of ctx hs))"
proof (induction hs arbitrary: acc)
  case Nil
  then show ?case by (simp add: keys_of_def)
next
  case (Cons h hs)
  obtain p d where h: "h = (p, d)" by (cases h)
  from Cons.prems h obtain k where k: "identity_of ctx p = Inr k"
    by (cases "identity_of ctx p") auto
  then have kk: "k = before_first_sep CHR ''='' (ANNOY_INDEX ctx ! p)"
    by (simp add: identity_of_Inr_iff)
  from Cons.prems h k obtain c' where
    run: "persons_loop ctx hs (AList.update k c' acc) = Inr ps"
    by (auto split: option.splits)
  have ks: "keys_of ctx (h # hs) = k # keys_of ctx hs"
    using h kk by (simp add: keys_of_def)
  let ?A = "set (map fst acc)"
  let ?fo = "first_occurrences (keys_of ctx hs)"
  show ?case
  proof (cases "k \<in> ?A")
    case True
    then have keys: "map fst (AList.update k c' acc) = map fst acc"
      by (simp add: update_keys)
    have "map fst ps = map fst acc @ filter (\<lambda>x. x \<notin> ?A) ?fo"
      using Cons.IH [OF run] keys by simp
    also have "filter (\<lambda>x. x \<notin> ?A) ?fo = filter (\<lambda>x. x \<notin> ?A) (removeAll k ?fo)"
      using filter_removeAll_seen [OF True] by simp
    finally show ?thesis using True ks by simp
  next
    case False
    then have keys: "map fst (AList.update k c' acc) = map fst acc @ [k]"
      by (simp add: update_keys)
    have "map fst ps = (map fst acc @ [k]) @ filter (\<lambda>x. x \<notin> insert k ?A) ?fo"
      using Cons.IH [OF run] keys by simp
    also have "filter (\<lambda>x. x \<notin> insert k ?A) ?fo = filter (\<lambda>x. x \<notin> ?A) (removeAll k ?fo)"
      by (rule filter_removeAll_new)
    finally show ?thesis using False ks by simp
  qed
qed

subsection \<open>The request as a whole\<close>

lemma lookup_performer_result:
  assumes "get_nns_by_vector ctx v 50 10000 = (ids, ds)"
  shows "fst (lookup_performer ctx uid v w) =
           (case persons_loop ctx (zip ids ds) [] of
              Inl e \<Rightarrow> Inl e
            | Inr ps \<Rightarrow> Inr \<lparr>result_id = uid,
                              performers = take 10 (sort_key distance (map snd ps))\<rparr>)"
  using assms by (simp add: lookup_performer_def split: sum.splits)

lemma lookup_performer_world:
  "snd (lookup_performer ctx uid v w) = w\<lparr>index_queries := index_queries w @ [v]\<rparr>"
  by (cases "get_nns_by_vector ctx v 50 10000")
    (simp add: lookup_performer_def Let_def split: sum.splits)

lemma persons_entry:
  assumes run: "persons_loop ctx hs [] = Inr ps" and mem: "(k, c) \<in> set ps"
  shows "cand_id c = k \<and> hits c = int (length (hits_of ctx k hs))"
proof -
  have "distinct (map fst ps)"
    using persons_loop_distinct [OF _ run] by simp
  with mem have look: "map_of ps k = Some c" by simp
  have "map_of ([] :: (string \<times> candidate) list) k = None" by simp
  from persons_loop_unseen [OF this run] look show ?thesis
    by (auto split: list.splits)
qed

lemma persons_cand_ids:
  assumes run: "persons_loop ctx hs [] = Inr ps"
  shows "map cand_id (map snd ps) = map fst ps"
  using persons_entry [OF run] by (auto simp: map_idI)

lemma sorted_take_le_rest:
  assumes "sorted (map f xs)" and "a \<in> set (take n xs)" and "b \<in> set xs - set (take n xs)"
  shows "f a \<le> f b"
proof -
  have "set xs = set (take n xs) \<union> set (drop n xs)"
    by (metis append_take_drop_id set_append)
  with assms(3) have b: "b \<in> set (drop n xs)" by auto
  have "sorted (map f (take n xs) @ map f (drop n xs))"
    using assms(1) by (metis append_take_drop_id map_append)
  with assms(2) b show ?thesis
    by (auto simp: sorted_append)
qed

lemma confirm_Inr_lookup:
  "fst (confirm ctx uid v w) = Inr r \<Longrightarrow> fst (lookup_performer ctx uid v w) = Inr r"
  by (simp add: confirm_def split: if_splits)

lemma lookup_performer_Inr:
  assumes "fst (lookup_performer ctx uid v w) = Inr r"
    and "get_nns_by_vector ctx v 50 10000 = (ids, ds)"
  obtains ps where "persons_loop ctx (zip ids ds) [] = Inr ps"
    and "r = \<lparr>result_id = uid, performers = take 10 (sort_key distance (map snd ps))\<rparr>"
  using assms lookup_performer_result [OF assms(2), of uid w]
  by (cases "persons_loop ctx (zip ids ds) []") auto

lemma distinct_map_take_sort:
  assumes "distinct (map f xs)"
  shows "distinct (map f (take n (sort_key g xs)))"
proof -
  from assms have d: "distinct xs" and i: "inj_on f (set xs)"
    by (simp_all add: distinct_map)
  have "set (take n (sort_key g xs)) \<subseteq> set xs"
    using set_take_subset [of n "sort_key g xs"] by simp
  with i have "inj_on f (set (take n (sort_key g xs)))"
    by (rule inj_on_subset)
  moreover from d have "distinct (take n (sort_key g xs))" by simp
  ultimately show ?thesis by (simp add: distinct_map)
qed

subsection \<open>The small gallery, evaluated\<close>

lemma py_round2_one: "py_round2 1 = 1"
  by code_simp

lemma py_round2_two: "py_round2 2 = 2"
  by code_simp

lemma fl_exact [simp]: "fl 0 = 0" "fl (1 / 2) = 1 / 2"
  by code_simp+

lemma gallery_query: "get_nns_by_vector (gallery ids ds) v n search_k = (ids, ds)"
  by (simp add: gallery_def)

lemma gallery_identity:
  "identity_of (gallery ids ds) 0 = Inr ''X''"
  "identity_of (gallery ids ds) (Suc 0) = Inr ''Y''"
  "identity_of (gallery ids ds) 2 = Inr ''X''"
  "identity_of (gallery ids ds) 7 = Inl IndexError"
  by (simp_all add: identity_of_def gallery_def)

lemma gallery_new_candidate:
  "new_candidate (gallery ids ds) ''X'' d =
     \<lparr>cand_id = ''X'', distance = py_round2 d, hits = 1, name = None, image_url = None\<rparr>"
  "new_candidate (gallery ids ds) ''Y'' d =
     \<lparr>cand_id = ''Y'', distance = py_round2 d, hits = 1, name = Some ''Why'',
      image_url = Some ''y.png''\<rparr>"
  by (simp_all add: new_candidate_def gallery_def)

lemma length_query512: "length query512 = 512"
  by (simp add: query512_def)





subsection \<open>Ranking\<close>

lemma ranked_properties:
  fixes cs :: "candidate list"
  defines "best \<equiv> take 10 (sort_key distance cs)"
  shows "length best = min 10 (length cs)"
    and "sorted (map distance best)"
    and "prefix (filter (\<lambda>c. distance c = d) best) (filter (\<lambda>c. distance c = d) cs)"
    and "set best \<subseteq> set cs"
    and "\<forall>a\<in>set best. \<forall>b\<in>set cs - set best. distance a \<le> distance b"
proof -
  let ?s = "sort_key distance cs"
  show "length best = min 10 (length cs)"
    by (simp add: best_def min.commute)
  have srt: "sorted (map distance ?s)" by (rule sorted_sort_key)
  have "map distance best = take 10 (map distance ?s)"
    by (simp add: best_def take_map)
  with srt show "sorted (map distance best)"
    by (simp add: sorted_wrt_take)
  have "prefix (filter (\<lambda>c. distance c = d) best) (filter (\<lambda>c. distance c = d) ?s)"
    unfolding best_def by (rule filter_mono_prefix [OF take_is_prefix])
  then show "prefix (filter (\<lambda>c. distance c = d) best) (filter (\<lambda>c. distance c = d) cs)"
    by (simp only: sort_key_stable)
  show "set best \<subseteq> set cs"
    using set_take_subset [of 10 ?s] by (simp add: best_def)
  show "\<forall>a\<in>set best. \<forall>b\<in>set cs - set best. distance a \<le> distance b"
  proof (intro ballI)
    fix a b
    assume a: "a \<in> set best" and b: "b \<in> set cs - set best"
    from b have "b \<in> set ?s - set (take 10 ?s)" by (simp add: best_def)
    with srt a show "distance a \<le> distance b"
      unfolding best_def by (rule sorted_take_le_rest [where f = distance])
  qed
qed

subsection \<open>Metadata\<close>

lemma persons_entry_metadata:
  assumes run: "persons_loop ctx hs [] = Inr ps" and mem: "(k, c) \<in> set ps"
  shows "name c = map_option person_name (PERFORMER_DB ctx k) \<and>
         image_url c = map_option person_image (PERFORMER_DB ctx k)"
proof -
  have "distinct (map fst ps)"
    using persons_loop_distinct [OF _ run] by simp
  with mem have look: "map_of ps k = Some c" by simp
  have "map_of ([] :: (string \<times> candidate) list) k = None" by simp
  from persons_loop_unseen [OF this run] look show ?thesis
    by (auto simp: new_candidate_def Let_def split: list.splits option.splits)
qed

lemma absent_metadata_fields:
  assumes "fst (lookup_performer ctx uid v w) = Inr r"
    and "c \<in> set (performers r)"
    and "PERFORMER_DB ctx (cand_id c) = None"
  shows "name c = None \<and> image_url c = None \<and>
         Performer_name (to_Performer c) = ''N/A'' \<and> Performer_image (to_Performer c) = ''N/A'' \<and>
         Performer_distance (to_Performer c) = distance c"
proof -
  obtain ids ds where q: "get_nns_by_vector ctx v 50 10000 = (ids, ds)"
    by (cases "get_nns_by_vector ctx v 50 10000")
  from assms(1) q obtain ps where run: "persons_loop ctx (zip ids ds) [] = Inr ps"
    and r: "r = \<lparr>result_id = uid, performers = take 10 (sort_key distance (map snd ps))\<rparr>"
    by (rule lookup_performer_Inr)
  from assms(2) r have "c \<in> set (take 10 (sort_key distance (map snd ps)))" by simp
  then have "c \<in> set (map snd ps)"
    using set_take_subset [of 10 "sort_key distance (map snd ps)"] by auto
  then obtain k where mem: "(k, c) \<in> set ps" by auto
  from persons_entry [OF run mem] have "cand_id c = k" by simp
  with persons_entry_metadata [OF run mem] assms(3) show ?thesis
    by (simp add: to_Performer_def)
qed

subsection \<open>The example of three hits\<close>



subsection \<open>The larger gallery, evaluated\<close>

lemma py_round2_integers:
  "py_round2 3 = 3" "py_round2 4 = 4" "py_round2 5 = 5" "py_round2 6 = 6" "py_round2 7 = 7"
  "py_round2 8 = 8" "py_round2 9 = 9" "py_round2 10 = 10" "py_round2 11 = 11"
  "py_round2 12 = 12"
  by code_simp+

text \<open>The double \<open>10.2\<close>; less \<open>0.5\<close> it is the double \<open>9.7\<close>.\<close>

lemma fl_ten_point_two: "fl (51 / 5) = 2871044762448691 / 281474976710656"
  by code_simp

lemma py_round2_ten_point_two:
  "py_round2 (2871044762448691 / 281474976710656) = 2871044762448691 / 281474976710656"
  by code_simp

lemma fl_ten_point_two_minus_half:
  "fl (2871044762448691 / 281474976710656 - 1 / 2) = 2730307274093363 / 281474976710656"
  by code_simp

lemma gallery13_K:
  "fl (py_round2 (fl (51 / 5)) - 1 / 2) = 2730307274093363 / 281474976710656"
  by (simp only: fl_ten_point_two py_round2_ten_point_two fl_ten_point_two_minus_half)

lemma gallery13_run:
  "fst (confirm gallery13 uid query512 world0) =
     Inr \<lparr>result_id = uid,
          performers =
            [\<lparr>cand_id = ''A'', distance = 1, hits = 1, name = None, image_url = None\<rparr>,
             \<lparr>cand_id = ''B'', distance = 2, hits = 1, name = None, image_url = None\<rparr>,
             \<lparr>cand_id = ''C'', distance = 3, hits = 1, name = None, image_url = None\<rparr>,
             \<lparr>cand_id = ''D'', distance = 4, hits = 1, name = None, image_url = None\<rparr>,
             \<lparr>cand_id = ''E'', distance = 5, hits = 1, name = None, image_url = None\<rparr>,
             \<lparr>cand_id = ''F'', distance = 6, hits = 1, name = None, image_url = None\<rparr>,
             \<lparr>cand_id = ''G'', distance = 7, hits = 1, name = None, image_url = None\<rparr>,
             \<lparr>cand_id = ''H'', distance = 8, hits = 1, name = None, image_url = None\<rparr>,
             \<lparr>cand_id = ''I'', distance = 9, hits = 1, name = None, image_url = None\<rparr>,
             \<lparr>cand_id = ''K'', distance = 2730307274093363 / 281474976710656, hits = 2,
               name = None, image_url = None\<rparr>]\<rparr>"
  by (simp add: confirm_def lookup_performer_def length_query512 gallery13_def identity_of_def
      new_candidate_def py_round2_one py_round2_two py_round2_integers gallery13_K Let_def)

lemma gallery13_keys:
  "first_occurrences (keys_of gallery13
      (zip [0, 1, 2, 3, 4, 5, 6, 7, 8, 9, 10, 11, 12]
           [1, 2, 3, 4, 5, 6, 7, 8, 9, 10, fl (51 / 5), 11, 12])) =
     [''A'', ''B'', ''C'', ''D'', ''E'', ''F'', ''G'', ''H'', ''I'', ''J'', ''K'', ''L'']"
  by (simp add: keys_of_def before_first_sep_def gallery13_def)

section \<open>The claims\<close>




text \<open>
  C2. Ranking. For a vector of length 512 whose hits all carry a slot of \<open>ANNOY_INDEX\<close>
  (the index and the slot list come from one gallery), the handler of \<open>/search\<close> returns
  a result. Its performers are the first ten (all, when there are fewer) of the
  aggregated candidates sorted by adjusted distance: the list is sorted, candidates of
  equal distance stand in the order of the dictionary, which is the order in which the
  identities first occur among the hits, and no candidate left out has a smaller
  distance than one that is returned.
\<close>

theorem resolve_ranked_top_ten:
  assumes len: "length v = 512"
    and q: "get_nns_by_vector ctx v 50 10000 = (ids, ds)"
    and inr: "\<forall>h\<in>set (zip ids ds). fst h < length (ANNOY_INDEX ctx)"
  shows "\<exists>ps r. persons_loop ctx (zip ids ds) [] = Inr ps \<and>
           fst (confirm ctx uid v w) = Inr r \<and>
           map fst ps = first_occurrences (keys_of ctx (zip ids ds)) \<and>
           length (performers r) = min 10 (length ps) \<and>
           sorted (map distance (performers r)) \<and>
           (\<forall>d. prefix (filter (\<lambda>c. distance c = d) (performers r))
                        (filter (\<lambda>c. distance c = d) (map snd ps))) \<and>
           set (performers r) \<subseteq> set (map snd ps) \<and>
           (\<forall>a\<in>set (performers r). \<forall>b\<in>set (map snd ps) - set (performers r).
              distance a \<le> distance b)"
proof -
  from persons_loop_in_range [OF inr]
  obtain ps where run: "persons_loop ctx (zip ids ds) [] = Inr ps" by blast
  define r where "r = \<lparr>result_id = uid, performers = take 10 (sort_key distance (map snd ps))\<rparr>"
  have res: "fst (confirm ctx uid v w) = Inr r"
    using len run by (simp add: confirm_def lookup_performer_result [OF q] r_def)
  have keys: "map fst ps = first_occurrences (keys_of ctx (zip ids ds))"
    using persons_loop_keys [OF run] by simp
  have p: "performers r = take 10 (sort_key distance (map snd ps))"
    by (simp add: r_def)
  have l: "length (performers r) = min 10 (length ps)"
    using ranked_properties(1) [of "map snd ps"] by (simp add: p)
  have s: "sorted (map distance (performers r))"
    unfolding p by (rule ranked_properties(2))
  have st: "\<forall>d. prefix (filter (\<lambda>c. distance c = d) (performers r))
                        (filter (\<lambda>c. distance c = d) (map snd ps))"
    unfolding p by (intro allI ranked_properties(3))
  have sub: "set (performers r) \<subseteq> set (map snd ps)"
    unfolding p by (rule ranked_properties(4))
  have tp: "\<forall>a\<in>set (performers r). \<forall>b\<in>set (map snd ps) - set (performers r).
              distance a \<le> distance b"
    unfolding p by (rule ranked_properties(5))
  from run res keys l s st sub tp show ?thesis by blast
qed

theorem resolve_ranked_top_ten_witness:
  "length query512 = 512 \<and>
   get_nns_by_vector gallery13 query512 50 10000 =
     ([0, 1, 2, 3, 4, 5, 6, 7, 8, 9, 10, 11, 12],
      [1, 2, 3, 4, 5, 6, 7, 8, 9, 10, fl (51 / 5), 11, 12]) \<and>
   list_all (\<lambda>h. fst h < length (ANNOY_INDEX gallery13))
     (zip [0, 1, 2, 3, 4, 5, 6, 7, 8, 9, 10, 11, 12]
          [1, 2, 3, 4, 5, 6, 7, 8, 9, 10, fl (51 / 5), 11, 12 :: rat]) \<and>
   (\<exists>ps r. fst (confirm gallery13 ''u'' query512 world0) = Inr r \<and>
      map fst ps = [''A'', ''B'', ''C'', ''D'', ''E'', ''F'', ''G'', ''H'', ''I'', ''J'', ''K'', ''L''] \<and>
      map cand_id (performers r) =
        [''A'', ''B'', ''C'', ''D'', ''E'', ''F'', ''G'', ''H'', ''I'', ''K''] \<and>
      length (performers r) = min 10 (length ps) \<and>
      sorted (map distance (performers r)) \<and>
      set (performers r) \<subseteq> set (map snd ps))"
proof -
  let ?ids = "[0, 1, 2, 3, 4, 5, 6, 7, 8, 9, 10, 11, 12 :: nat]"
  let ?ds = "[1, 2, 3, 4, 5, 6, 7, 8, 9, 10, fl (51 / 5), 11, 12 :: rat]"
  have q: "get_nns_by_vector gallery13 query512 50 10000 = (?ids, ?ds)"
    by (simp add: gallery13_def)
  have la: "list_all (\<lambda>h. fst h < length (ANNOY_INDEX gallery13)) (zip ?ids ?ds)"
    by (simp add: gallery13_def)
  then have inr: "\<forall>h\<in>set (zip ?ids ?ds). fst h < length (ANNOY_INDEX gallery13)"
    by (simp only: list_all_iff)
  from resolve_ranked_top_ten [OF length_query512 q inr, of "''u''" world0]
  obtain ps r where res: "fst (confirm gallery13 ''u'' query512 world0) = Inr r"
    and keys: "map fst ps = first_occurrences (keys_of gallery13 (zip ?ids ?ds))"
    and l: "length (performers r) = min 10 (length ps)"
    and s: "sorted (map distance (performers r))"
    and sub: "set (performers r) \<subseteq> set (map snd ps)"
    by blast
  from keys have k: "map fst ps =
      [''A'', ''B'', ''C'', ''D'', ''E'', ''F'', ''G'', ''H'', ''I'', ''J'', ''K'', ''L'']"
    by (simp only: gallery13_keys)
  from res have c: "map cand_id (performers r) =
        [''A'', ''B'', ''C'', ''D'', ''E'', ''F'', ''G'', ''H'', ''I'', ''K'']"
    by (auto simp: gallery13_run)
  have ex: "\<exists>ps r. fst (confirm gallery13 ''u'' query512 world0) = Inr r \<and>
      map fst ps = [''A'', ''B'', ''C'', ''D'', ''E'', ''F'', ''G'', ''H'', ''I'', ''J'', ''K'', ''L''] \<and>
      map cand_id (performers r) =
        [''A'', ''B'', ''C'', ''D'', ''E'', ''F'', ''G'', ''H'', ''I'', ''K''] \<and>
      length (performers r) = min 10 (length ps) \<and>
      sorted (map distance (performers r)) \<and>
      set (performers r) \<subseteq> set (map snd ps)"
    by (rule exI [of _ ps], rule exI [of _ r]) (intro conjI res k c l s sub)
  show ?thesis
    by (intro conjI length_query512 q la ex)
qed

text \<open>
  C3. A vector whose length is not 512 is rejected by the handler of \<open>/search\<close> with the
  HTTP error 400 "Invalid vector size", and the world is returned as it was: no query
  reaches the ANN index (\<open>lookup_performer_world\<close> shows that a query would be recorded).
\<close>

theorem invalid_vector_size_rejected:
  "length v \<noteq> 512 \<Longrightarrow>
     confirm ctx uid v w = (Inl (HTTPException 400 ''Invalid vector size''), w)"
  by (simp add: confirm_def)

theorem invalid_vector_size_rejected_witness:
  "length ([1, 2, 3] :: vector) \<noteq> 512 \<and>
     confirm (gallery [0] [1]) ''u'' [1, 2, 3] world0
       = (Inl (HTTPException 400 ''Invalid vector size''), world0) \<and>
     index_queries (snd (confirm (gallery [0] [1]) ''u'' [1, 2, 3] world0)) = []"
  using invalid_vector_size_rejected [of "[1, 2, 3]" "gallery [0] [1]" "''u''" world0]
  by (simp add: world0_def)

text \<open>
  C4. Metadata defaulting, at a request whose only hit is a slot of the identity \<open>X\<close>,
  which has no entry in \<open>PERFORMER_DB\<close>. The handler of \<open>/search\<close> returns the entry
  of \<open>X\<close> without the keys \<open>name\<close> and \<open>image\<close>; the handler of \<open>/\<close>, which
  declares the response model, returns it with both set to "N/A"
  (\<open>absent_metadata_fields\<close> is the general statement).
\<close>

theorem search_entry_without_metadata:
  "PERFORMER_DB (gallery [0] [1]) ''X'' = None \<and>
   fst (confirm (gallery [0] [1]) ''u'' query512 world0) =
     Inr \<lparr>result_id = ''u'',
          performers =
            [\<lparr>cand_id = ''X'', distance = 1, hits = 1, name = None, image_url = None\<rparr>]\<rparr> \<and>
   fst (recognise_response (gallery [0] [1]) ''u'' query512 world0) =
     Inr \<lparr>PerformerSearch_id = ''u'',
          PerformerSearch_performers =
            [\<lparr>Performer_id = ''X'', Performer_name = ''N/A'', Performer_image = ''N/A'',
              Performer_distance = 1\<rparr>]\<rparr>"
proof -
  have db: "PERFORMER_DB (gallery [0] [1]) ''X'' = None"
    by (simp add: gallery_def)
  have run: "lookup_performer (gallery [0] [1]) ''u'' query512 world0 =
     (Inr \<lparr>result_id = ''u'',
           performers =
             [\<lparr>cand_id = ''X'', distance = 1, hits = 1, name = None, image_url = None\<rparr>]\<rparr>,
      world0\<lparr>index_queries := index_queries world0 @ [query512]\<rparr>)"
    by (simp add: lookup_performer_def gallery_query gallery_identity gallery_new_candidate
        py_round2_one)
  from db run show ?thesis
    by (simp add: confirm_def length_query512 recognise_response_def to_PerformerSearch_def
        to_Performer_def)
qed

text \<open>
  C5. When a hit of the ANN index carries a slot beyond the end of \<open>ANNOY_INDEX\<close>, the
  subscript at line 121 raises: the request ends with that error, whatever the hits
  before and after it, and no list of performers is returned.
\<close>

theorem unmapped_slot_fails_request:
  assumes "get_nns_by_vector ctx v 50 10000 = (ids, ds)"
    and "h \<in> set (zip ids ds)"
    and "length (ANNOY_INDEX ctx) \<le> fst h"
  shows "fst (lookup_performer ctx uid v w) = Inl IndexError \<and>
         (length v = 512 \<longrightarrow> fst (confirm ctx uid v w) = Inl IndexError)"
proof -
  have "persons_loop ctx (zip ids ds) [] = Inl IndexError"
    using assms(2,3) by (rule persons_loop_out_of_range)
  then have "fst (lookup_performer ctx uid v w) = Inl IndexError"
    by (simp add: lookup_performer_result [OF assms(1)])
  then show ?thesis by (simp add: confirm_def)
qed

theorem unmapped_slot_fails_request_witness:
  "get_nns_by_vector (gallery [0, 7] [1, 2]) query512 50 10000 = ([0, 7], [1, 2]) \<and>
   (7, 2) \<in> set (zip [0, 7 :: nat] [1, 2 :: rat]) \<and>
   length (ANNOY_INDEX (gallery [0, 7] [1, 2])) \<le> fst (7 :: nat, 2 :: rat) \<and>
   length query512 = 512 \<and>
   fst (lookup_performer (gallery [0, 7] [1, 2]) ''u'' query512 world0) = Inl IndexError \<and>
   fst (confirm (gallery [0, 7] [1, 2]) ''u'' query512 world0) = Inl IndexError"
proof -
  have q: "get_nns_by_vector (gallery [0, 7] [1, 2]) query512 50 10000 = ([0, 7], [1, 2])"
    by (rule gallery_query)
  have m: "(7, 2) \<in> set (zip [0, 7 :: nat] [1, 2 :: rat])" by simp
  have o: "length (ANNOY_INDEX (gallery [0, 7] [1, 2])) \<le> fst (7 :: nat, 2 :: rat)"
    by (simp add: gallery_def)
  from unmapped_slot_fails_request [OF q m o, of "''u''" world0] q m o length_query512
  show ?thesis by simp
qed

text \<open>
  C6. Two calls in a row with the same vector against the same index, slot list and
  metadata end alike: both with the same error, or both with the same list of
  performers, each result carrying the request id generated for its own call.
\<close>

theorem repeated_call_same_performers:
  "(case (fst (confirm ctx uid1 v w), fst (confirm ctx uid2 v (snd (confirm ctx uid1 v w)))) of
      (Inr r1, Inr r2) \<Rightarrow>
         performers r1 = performers r2 \<and> result_id r1 = uid1 \<and> result_id r2 = uid2
    | (Inl e1, Inl e2) \<Rightarrow> e1 = e2
    | _ \<Rightarrow> False)"
proof (cases "length v = 512")
  case False
  then show ?thesis by (simp add: confirm_def)
next
  case True
  obtain ids ds where q: "get_nns_by_vector ctx v 50 10000 = (ids, ds)"
    by (cases "get_nns_by_vector ctx v 50 10000")
  show ?thesis
    using True by (simp add: confirm_def lookup_performer_result [OF q] split: sum.splits)
qed

text \<open>
  C7. For a slot in range, the identity key read at line 121 is the part of the slot's
  entry before the first separator \<open>=\<close>: whatever follows the separator is dropped,
  and an entry without separator is the key as a whole.
\<close>

theorem slot_identity_is_prefix_before_separator:
  assumes "p < length (ANNOY_INDEX ctx)"
  shows "identity_of ctx p = Inr (before_first_sep CHR ''='' (ANNOY_INDEX ctx ! p)) \<and>
         (\<forall>k rest. ANNOY_INDEX ctx ! p = k @ CHR ''='' # rest \<and> CHR ''='' \<notin> set k
             \<longrightarrow> identity_of ctx p = Inr k) \<and>
         (CHR ''='' \<notin> set (ANNOY_INDEX ctx ! p) \<longrightarrow> identity_of ctx p = Inr (ANNOY_INDEX ctx ! p))"
proof -
  have whole: "identity_of ctx p = Inr (before_first_sep CHR ''='' (ANNOY_INDEX ctx ! p))"
    using assms by (rule identity_of_in_range)
  have "before_first_sep CHR ''='' (k @ CHR ''='' # rest) = k" if "CHR ''='' \<notin> set k" for k rest
    using that by (induction k) (auto simp: before_first_sep_def)
  moreover have "before_first_sep CHR ''='' s = s" if "CHR ''='' \<notin> set s" for s
    using that by (induction s) (auto simp: before_first_sep_def)
  ultimately show ?thesis using whole by auto
qed

theorem slot_identity_is_prefix_before_separator_witness:
  "(2::nat) < length (ANNOY_INDEX (gallery [] [])) \<and>
     ANNOY_INDEX (gallery [] []) ! 2 = ''X'' @ CHR ''='' # ''c.jpg'' \<and>
     CHR ''='' \<notin> set ''X'' \<and>
     identity_of (gallery [] []) 2 = Inr ''X''"
proof -
  have r: "(2::nat) < length (ANNOY_INDEX (gallery [] []))" by (simp add: gallery_def)
  have e: "ANNOY_INDEX (gallery [] []) ! 2 = ''X'' @ CHR ''='' # ''c.jpg''" by (simp add: gallery_def)
  have n: "CHR ''='' \<notin> set ''X''" by simp
  from slot_identity_is_prefix_before_separator [OF r] e n
  have "identity_of (gallery [] []) 2 = Inr ''X''" by blast
  with r e n show ?thesis by blast
qed


text \<open>
  C9. Every entry of the returned list carries the field \<open>hits\<close>, and its value is the
  number of ANN hits whose slot maps to the entry's identity key. The handler of
  \<open>/search\<close> returns the list as it is.
\<close>

theorem hits_field_counts_identity_hits:
  assumes "fst (lookup_performer ctx uid v w) = Inr r \<or> fst (confirm ctx uid v w) = Inr r"
    and "get_nns_by_vector ctx v 50 10000 = (ids, ds)"
    and "c \<in> set (performers r)"
  shows "hits c = int (length (hits_of ctx (cand_id c) (zip ids ds)))"
proof -
  from assms(1) have "fst (lookup_performer ctx uid v w) = Inr r"
    using confirm_Inr_lookup by blast
  then obtain ps where run: "persons_loop ctx (zip ids ds) [] = Inr ps"
    and r: "r = \<lparr>result_id = uid, performers = take 10 (sort_key distance (map snd ps))\<rparr>"
    using assms(2) by (rule lookup_performer_Inr)
  from assms(3) r have "c \<in> set (take 10 (sort_key distance (map snd ps)))" by simp
  then have "c \<in> set (map snd ps)"
    using set_take_subset [of 10 "sort_key distance (map snd ps)"] by auto
  then obtain k where "(k, c) \<in> set ps" by auto
  from persons_entry [OF run this] show ?thesis by simp
qed

theorem hits_field_counts_identity_hits_witness:
  "fst (confirm (gallery [0, 1, 2] [1, 1, fl (6 / 5)]) ''u'' query512 world0) =
     Inr \<lparr>result_id = ''u'',
          performers =
            [\<lparr>cand_id = ''X'', distance = 1 / 2, hits = 2, name = None, image_url = None\<rparr>,
             \<lparr>cand_id = ''Y'', distance = 1, hits = 1, name = Some ''Why'',
               image_url = Some ''y.png''\<rparr>]\<rparr> \<and>
   int (length (hits_of (gallery [0, 1, 2] [1, 1, fl (6 / 5)]) ''X'' (zip [0, 1, 2] [1, 1, fl (6 / 5)]))) = 2"
proof -
  let ?g = "gallery [0, 1, 2] [1, 1, fl (6 / 5)]"
  let ?x = "\<lparr>cand_id = ''X'', distance = 1 / 2, hits = 2, name = None, image_url = None\<rparr>"
  let ?y = "\<lparr>cand_id = ''Y'', distance = 1, hits = 1, name = Some ''Why'',
              image_url = Some ''y.png''\<rparr>"
  let ?r = "\<lparr>result_id = ''u'', performers = [?x, ?y]\<rparr>"
  have run: "fst (confirm ?g ''u'' query512 world0) = Inr ?r"
    by (simp add: confirm_def lookup_performer_def length_query512 gallery_query gallery_identity
        gallery_new_candidate py_round2_one)
  have q: "get_nns_by_vector ?g query512 50 10000 = ([0, 1, 2], [1, 1, fl (6 / 5)])"
    by (rule gallery_query)
  have "hits ?x = int (length (hits_of ?g (cand_id ?x) (zip [0, 1, 2] [1, 1, fl (6 / 5)])))"
    by (rule hits_field_counts_identity_hits [OF disjI2 [OF run] q]) simp
  with run show ?thesis by simp
qed

text \<open>
  C10. The identity keys of the returned entries are pairwise distinct, however many
  hits map to one identity.
\<close>

theorem performers_identities_distinct:
  assumes "fst (lookup_performer ctx uid v w) = Inr r \<or> fst (confirm ctx uid v w) = Inr r"
  shows "distinct (map cand_id (performers r))"
proof -
  obtain ids ds where q: "get_nns_by_vector ctx v 50 10000 = (ids, ds)"
    by (cases "get_nns_by_vector ctx v 50 10000")
  from assms have "fst (lookup_performer ctx uid v w) = Inr r"
    using confirm_Inr_lookup by blast
  then obtain ps where run: "persons_loop ctx (zip ids ds) [] = Inr ps"
    and r: "r = \<lparr>result_id = uid, performers = take 10 (sort_key distance (map snd ps))\<rparr>"
    using q by (rule lookup_performer_Inr)
  have "distinct (map fst ps)"
    using persons_loop_distinct [OF _ run] by simp
  then have "distinct (map cand_id (map snd ps))"
    by (simp only: persons_cand_ids [OF run])
  then show ?thesis
    unfolding r by (simp add: distinct_map_take_sort)
qed

theorem performers_identities_distinct_witness:
  "fst (confirm (gallery [0, 2, 0, 1] [1, 1, fl (6 / 5), 2]) ''u'' query512 world0) =
     Inr \<lparr>result_id = ''u'',
          performers =
            [\<lparr>cand_id = ''X'', distance = 0, hits = 3, name = None, image_url = None\<rparr>,
             \<lparr>cand_id = ''Y'', distance = 2, hits = 1, name = Some ''Why'',
               image_url = Some ''y.png''\<rparr>]\<rparr> \<and>
   distinct (map cand_id
     [\<lparr>cand_id = ''X'', distance = 0, hits = 3, name = None, image_url = None\<rparr>,
      \<lparr>cand_id = ''Y'', distance = 2, hits = 1, name = Some ''Why'',
        image_url = Some ''y.png''\<rparr>])"
proof -
  let ?g = "gallery [0, 2, 0, 1] [1, 1, fl (6 / 5), 2]"
  let ?x = "\<lparr>cand_id = ''X'', distance = 0, hits = 3, name = None, image_url = None\<rparr>"
  let ?y = "\<lparr>cand_id = ''Y'', distance = 2, hits = 1, name = Some ''Why'',
              image_url = Some ''y.png''\<rparr>"
  let ?r = "\<lparr>result_id = ''u'', performers = [?x, ?y]\<rparr>"
  have two: "py_round2 2 = 2"
    by (rule py_round2_two)
  have run: "fst (confirm ?g ''u'' query512 world0) = Inr ?r"
    by (simp add: confirm_def lookup_performer_def length_query512 gallery_query gallery_identity
        gallery_new_candidate py_round2_one two)
  from performers_identities_distinct [OF disjI2 [OF run]] run show ?thesis by simp
qed

end
